theory Spec2Isabelle
  imports Main "HOL-Library.Word" "HOL-Library.Multiset"
begin

section \<open>Transmission schedule (package transmission)\<close>

text \<open>
  The Go package \<^verbatim>\<open>transmission\<close> computes, for every peer of a DON, the delay after
  which that peer transmits. \<^verbatim>\<open>time.Duration\<close> is an \<^verbatim>\<open>int64\<close> count of
  nanoseconds: a 64-bit word whose multiplication wraps and which \<open>sint\<close> reads as signed.
  Slice indices, lengths and the entries of a schedule are Go \<^verbatim>\<open>int\<close>s that never exceed
  the length of the peer slice, so they are modelled by \<open>nat\<close> and \<open>int\<close>.
\<close>

type_synonym Duration = "64 word"

definition Schedule_AllAtOnce :: string where
  "Schedule_AllAtOnce = ''allAtOnce''"

definition Schedule_OneAtATime :: string where
  "Schedule_OneAtATime = ''oneAtATime''"

record TransmissionConfig =
  Schedule :: string
  DeltaStage :: Duration

text \<open>The anonymous struct \<^verbatim>\<open>tc\<close> that \<^verbatim>\<open>ExtractTransmissionConfig\<close> unwraps into.\<close>

record tc_struct =
  tc_DeltaStage :: string
  tc_Schedule :: string

text \<open>
  Errors and panics of the package. \<open>UnwrapFailed\<close>, \<open>ParseDeltaStageFailed\<close> and
  \<open>InvalidExecutionID\<close> wrap the message of the failing library call, \<open>ExtractFailed\<close>
  wraps an error of \<^verbatim>\<open>ExtractTransmissionConfig\<close>; \<open>IndexOutOfRange\<close> is the run-time
  panic of a slice read past its end.
\<close>

datatype error =
    UnwrapFailed string
  | ParseDeltaStageFailed string string
  | UnknownScheduleType string
  | ExtractFailed error
  | InvalidExecutionID string
  | IndexOutOfRange nat

subsection \<open>ExtractTransmissionConfig\<close>

text \<open>
  \<^verbatim>\<open>config.UnwrapTo\<close> (chainlink-common) and \<^verbatim>\<open>time.ParseDuration\<close> (the Go standard
  library) are not part of the repository; the function takes them as the parameters
  \<open>UnwrapTo\<close> and \<open>ParseDuration\<close>, each returning its error message on the left.
  The function itself has no check on the sign of the parsed duration and none on the
  schedule name.
\<close>

definition ExtractTransmissionConfig ::
  "('cfg \<Rightarrow> string + tc_struct) \<Rightarrow> (string \<Rightarrow> string + Duration) \<Rightarrow> 'cfg
     \<Rightarrow> error + TransmissionConfig" where
  "ExtractTransmissionConfig UnwrapTo ParseDuration config =
     (case UnwrapTo config of
        Inl err \<Rightarrow> Inl (UnwrapFailed err)
      | Inr tc \<Rightarrow>
          if length (tc_Schedule tc) = 0 \<and> length (tc_DeltaStage tc) = 0
          then Inr \<lparr>Schedule = Schedule_AllAtOnce, DeltaStage = 0\<rparr>
          else (case ParseDuration (tc_DeltaStage tc) of
                  Inl err \<Rightarrow> Inl (ParseDeltaStageFailed (tc_DeltaStage tc) err)
                | Inr duration \<Rightarrow>
                    Inr \<lparr>Schedule = tc_Schedule tc, DeltaStage = duration\<rparr>))"

subsection \<open>createTransmissionSchedule\<close>

text \<open>The loop \<^verbatim>\<open>for i := 0; i < N; i++ { sch = append(sch, 1) }\<close>.\<close>

function oneAtATime_loop :: "int \<Rightarrow> int \<Rightarrow> int list \<Rightarrow> int list" where
  "oneAtATime_loop i N sch =
     (if i < N then oneAtATime_loop (i + 1) N (sch @ [1]) else sch)"
  by pat_completeness auto
termination
  by (relation "measure (\<lambda>(i, N, sch). nat (N - i))") auto

definition createTransmissionSchedule :: "string \<Rightarrow> int \<Rightarrow> error + int list" where
  "createTransmissionSchedule scheduleType N =
     (if scheduleType = Schedule_AllAtOnce then Inr [N]
      else if scheduleType = Schedule_OneAtATime then Inr (oneAtATime_loop 0 N [])
      else Inl (UnknownScheduleType scheduleType))"

subsection \<open>delayFor\<close>

text \<open>
  The loop over the buckets of the schedule, with the running \<^verbatim>\<open>sum\<close> (here \<open>acc\<close>) and the bucket
  index \<^verbatim>\<open>i\<close> as arguments. \<^verbatim>\<open>permutation[position]\<close> is read in every iteration; a
  position past the end of the permutation panics. \<open>Inr None\<close> is the \<^verbatim>\<open>nil\<close> result.
\<close>

fun delayFor_loop ::
  "nat \<Rightarrow> int list \<Rightarrow> Duration \<Rightarrow> int \<Rightarrow> nat \<Rightarrow> int list \<Rightarrow> error + Duration option" where
  "delayFor_loop position permutation deltaStage acc i [] = Inr None"
| "delayFor_loop position permutation deltaStage acc i (s # rest) =
     (if length permutation \<le> position then Inl (IndexOutOfRange position)
      else if permutation ! position < acc + s
           then Inr (Some (word_of_nat i * deltaStage))
           else delayFor_loop position permutation deltaStage (acc + s) (i + 1) rest)"

definition delayFor ::
  "nat \<Rightarrow> int list \<Rightarrow> int list \<Rightarrow> Duration \<Rightarrow> error + Duration option" where
  "delayFor position schedule permutation deltaStage =
     delayFor_loop position permutation deltaStage 0 0 schedule"

subsection \<open>transmissionScheduleSeed\<close>

text \<open>
  The legacy Keccak-256 of \<^verbatim>\<open>golang.org/x/crypto/sha3\<close> is the parameter
  \<open>keccak\<close>. \<^verbatim>\<open>copy(key[:], digest)\<close> fills the zeroed 16-byte key with as many
  bytes of the digest as fit.
\<close>

definition transmissionScheduleSeed ::
  "(8 word list \<Rightarrow> 8 word list) \<Rightarrow> string \<Rightarrow> 8 word list" where
  "transmissionScheduleSeed keccak transmissionID =
     (let digest = keccak (map (\<lambda>c. word_of_nat (of_char c)) transmissionID)
      in take 16 digest @ replicate (16 - length digest) 0)"

subsection \<open>GetPeerIDToTransmissionDelaysForConfig\<close>

text \<open>
  The loop \<^verbatim>\<open>for i, peerID := range donPeerIDs\<close>, with the position \<^verbatim>\<open>i\<close> and the map
  built so far as arguments. A later entry for the same peer overwrites an earlier one,
  as the Go map assignment does.
\<close>

fun assignDelays ::
  "nat \<Rightarrow> 'peer list \<Rightarrow> int list \<Rightarrow> int list \<Rightarrow> Duration \<Rightarrow> ('peer \<rightharpoonup> Duration)
     \<Rightarrow> error + ('peer \<rightharpoonup> Duration)" where
  "assignDelays i [] schedule picked deltaStage m = Inr m"
| "assignDelays i (peerID # rest) schedule picked deltaStage m =
     (case delayFor i schedule picked deltaStage of
        Inl e \<Rightarrow> Inl e
      | Inr None \<Rightarrow> assignDelays (i + 1) rest schedule picked deltaStage m
      | Inr (Some delay) \<Rightarrow>
          assignDelays (i + 1) rest schedule picked deltaStage (m(peerID \<mapsto> delay)))"

text \<open>
  \<^verbatim>\<open>permutation.Permutation\<close> (libocr) is the parameter \<open>Permutation\<close>: from a size and
  a 16-byte key to a slice of ranks.
\<close>

definition GetPeerIDToTransmissionDelaysForConfig ::
  "(8 word list \<Rightarrow> 8 word list) \<Rightarrow> (nat \<Rightarrow> 8 word list \<Rightarrow> int list)
     \<Rightarrow> 'peer list \<Rightarrow> string \<Rightarrow> TransmissionConfig \<Rightarrow> error + ('peer \<rightharpoonup> Duration)" where
  "GetPeerIDToTransmissionDelaysForConfig keccak Permutation donPeerIDs transmissionID tc =
     (let donMemberCount = length donPeerIDs;
          key = transmissionScheduleSeed keccak transmissionID
      in case createTransmissionSchedule (Schedule tc) (int donMemberCount) of
           Inl err \<Rightarrow> Inl err
         | Inr schedule \<Rightarrow>
             (let picked = Permutation donMemberCount key
              in assignDelays 0 donPeerIDs schedule picked (DeltaStage tc) Map.empty))"

text \<open>
  What the libocr permutation returns for size \<open>n\<close>: every rank of \<open>[0..n)\<close> once.
\<close>

definition is_permutation :: "nat \<Rightarrow> int list \<Rightarrow> bool" where
  "is_permutation n picked \<longleftrightarrow> mset picked = mset (map int [0..<n])"

subsection \<open>GetPeerIDToTransmissionDelay\<close>

text \<open>
  The entry point: the request carries the configuration and the workflow execution ID.
  \<^verbatim>\<open>validation.ValidateWorkflowOrExecutionID\<close> is a parameter that returns the error
  message, if any.
\<close>

record 'cfg CapabilityRequest =
  Config :: 'cfg
  Metadata_WorkflowExecutionID :: string

definition GetPeerIDToTransmissionDelay ::
  "('cfg \<Rightarrow> string + tc_struct) \<Rightarrow> (string \<Rightarrow> string + Duration) \<Rightarrow> (string \<Rightarrow> string option)
     \<Rightarrow> (8 word list \<Rightarrow> 8 word list) \<Rightarrow> (nat \<Rightarrow> 8 word list \<Rightarrow> int list)
     \<Rightarrow> 'peer list \<Rightarrow> 'cfg CapabilityRequest \<Rightarrow> error + ('peer \<rightharpoonup> Duration)" where
  "GetPeerIDToTransmissionDelay UnwrapTo ParseDuration ValidateWorkflowOrExecutionID keccak
       Permutation donPeerIDs req =
     (case ExtractTransmissionConfig UnwrapTo ParseDuration (Config req) of
        Inl err \<Rightarrow> Inl (ExtractFailed err)
      | Inr tc \<Rightarrow>
          (case ValidateWorkflowOrExecutionID (Metadata_WorkflowExecutionID req) of
             Some err \<Rightarrow> Inl (InvalidExecutionID err)
           | None \<Rightarrow>
               GetPeerIDToTransmissionDelaysForConfig keccak Permutation donPeerIDs
                 (Metadata_WorkflowExecutionID req) tc))"

subsection \<open>time.ParseDuration\<close>

text \<open>
  The parser of the Go standard library, for the places where
  \<^verbatim>\<open>ExtractTransmissionConfig\<close> is evaluated at a concrete configuration. It reads an
  optional sign and then a sequence of terms, each a decimal number with an optional
  fraction and a unit. The error messages leave out the quoted input. Go computes the
  contribution of a fraction in \<^verbatim>\<open>float64\<close>: that computation is the parameter
  \<open>fraction\<close>, from the digits of the fraction (as a number), the unit and the number
  of digits. The accumulated value is an unsigned 64-bit integer.
\<close>

definition isDigit :: "char \<Rightarrow> bool" where
  "isDigit c \<longleftrightarrow> (48::nat) \<le> of_char c \<and> (of_char c :: nat) \<le> 57"

fun leadingInt :: "nat \<Rightarrow> string \<Rightarrow> (nat \<times> string) option" where
  "leadingInt x [] = Some (x, [])"
| "leadingInt x (c # s) =
     (if \<not> isDigit c then Some (x, c # s)
      else if x > 2 ^ 63 div 10 then None
      else if x * 10 + of_char c - 48 > 2 ^ 63 then None
      else leadingInt (x * 10 + of_char c - 48) s)"

fun leadingFraction :: "nat \<Rightarrow> nat \<Rightarrow> bool \<Rightarrow> string \<Rightarrow> nat \<times> nat \<times> string" where
  "leadingFraction x k overflow [] = (x, k, [])"
| "leadingFraction x k overflow (c # s) =
     (if \<not> isDigit c then (x, k, c # s)
      else if overflow then leadingFraction x k overflow s
      else if x > (2 ^ 63 - 1) div 10 then leadingFraction x k True s
      else if x * 10 + of_char c - 48 > 2 ^ 63 then leadingFraction x k True s
      else leadingFraction (x * 10 + of_char c - 48) (k + 1) False s)"

definition unitMap :: "string \<Rightarrow> nat option" where
  "unitMap u =
     (if u = ''ns'' then Some 1
      else if u = ''us'' then Some 1000
      else if u = [CHR 0xC2, CHR 0xB5, CHR ''s''] then Some 1000
      else if u = [CHR 0xCE, CHR 0xBC, CHR ''s''] then Some 1000
      else if u = ''ms'' then Some 1000000
      else if u = ''s'' then Some 1000000000
      else if u = ''m'' then Some 60000000000
      else if u = ''h'' then Some 3600000000000
      else None)"

definition startsNumber :: "char \<Rightarrow> bool" where
  "startsNumber c \<longleftrightarrow> c = CHR ''.'' \<or> isDigit c"

definition durationTerm :: "(nat \<Rightarrow> nat \<Rightarrow> nat \<Rightarrow> nat) \<Rightarrow> string \<Rightarrow> string + (nat \<times> string)" where
  "durationTerm fraction s =
     (if s = [] \<or> \<not> startsNumber (hd s) then Inl ''time: invalid duration''
      else case leadingInt 0 s of
        None \<Rightarrow> Inl ''time: invalid duration''
      | Some (v, s1) \<Rightarrow>
          (let pre = (length s \<noteq> length s1);
               (f, k, s2) = (if s1 \<noteq> [] \<and> hd s1 = CHR ''.''
                             then leadingFraction 0 0 False (tl s1) else (0, 0, s1));
               post = (s1 \<noteq> [] \<and> hd s1 = CHR ''.'' \<and> length (tl s1) \<noteq> length s2);
               u = takeWhile (\<lambda>c. \<not> startsNumber c) s2;
               s3 = dropWhile (\<lambda>c. \<not> startsNumber c) s2
           in if \<not> pre \<and> \<not> post then Inl ''time: invalid duration''
              else if u = [] then Inl ''time: missing unit in duration''
              else case unitMap u of
                None \<Rightarrow> Inl ''time: unknown unit in duration''
              | Some unit \<Rightarrow>
                  if v > 2 ^ 63 div unit then Inl ''time: invalid duration''
                  else if f > 0 \<and> v * unit + fraction f unit k > 2 ^ 63
                  then Inl ''time: invalid duration''
                  else Inr (if f > 0 then v * unit + fraction f unit k else v * unit, s3)))"

text \<open>Every term of a duration consumes at least its unit.\<close>

lemma leadingInt_length: "leadingInt x s = Some (v, r) \<Longrightarrow> length r \<le> length s"
  by (induction x s rule: leadingInt.induct) (auto split: if_splits)

lemma leadingFraction_length: "leadingFraction x k ov s = (f, k', r) \<Longrightarrow> length r \<le> length s"
  by (induction x k ov s rule: leadingFraction.induct) (auto split: if_splits)

lemma durationTerm_shorter:
  assumes "durationTerm fraction s = Inr (v, r)"
  shows "length r < length s \<or> s = []"
proof -
  have "leadingInt 0 s \<noteq> None"
  proof
    assume "leadingInt 0 s = None"
    then have "durationTerm fraction s = Inl ''time: invalid duration''"
      by (simp add: durationTerm_def)
    with assms show False by simp
  qed
  then obtain v0 s1 where li: "leadingInt 0 s = Some (v0, s1)"
    by fastforce
  obtain f k s2 where fr: "(if s1 \<noteq> [] \<and> hd s1 = CHR ''.''
                             then leadingFraction 0 0 False (tl s1) else (0, 0, s1)) = (f, k, s2)"
    by (metis prod_cases3)
  have l2: "length s2 \<le> length s1"
  proof (cases "s1 \<noteq> [] \<and> hd s1 = CHR ''.''")
    case True
    with fr have "leadingFraction 0 0 False (tl s1) = (f, k, s2)" by simp
    from leadingFraction_length [OF this] show ?thesis by simp
  next
    case False
    with fr show ?thesis by simp
  qed
  let ?u = "takeWhile (\<lambda>c. \<not> startsNumber c) s2"
  let ?s3 = "dropWhile (\<lambda>c. \<not> startsNumber c) s2"
  have *: "durationTerm fraction s =
     (if s = [] \<or> \<not> startsNumber (hd s) then Inl ''time: invalid duration''
      else if \<not> (length s \<noteq> length s1) \<and>
              \<not> (s1 \<noteq> [] \<and> hd s1 = CHR ''.'' \<and> length (tl s1) \<noteq> length s2)
           then Inl ''time: invalid duration''
           else if ?u = [] then Inl ''time: missing unit in duration''
           else case unitMap ?u of
                None \<Rightarrow> Inl ''time: unknown unit in duration''
              | Some unit \<Rightarrow>
                  if v0 > 2 ^ 63 div unit then Inl ''time: invalid duration''
                  else if f > 0 \<and> v0 * unit + fraction f unit k > 2 ^ 63
                  then Inl ''time: invalid duration''
                  else Inr (if f > 0 then v0 * unit + fraction f unit k else v0 * unit, ?s3))"
    unfolding durationTerm_def li option.case prod.case Let_def fr ..
  from assms have u: "?u \<noteq> []" and r: "r = ?s3"
    unfolding * by (simp_all split: if_splits option.splits)
  have "length ?u + length r = length s2"
    unfolding r by (metis length_append takeWhile_dropWhile_id)
  with u have "length r < length s2" by (cases ?u) auto
  with l2 leadingInt_length [OF li] show ?thesis by simp
qed

function durationTerms :: "(nat \<Rightarrow> nat \<Rightarrow> nat \<Rightarrow> nat) \<Rightarrow> nat \<Rightarrow> string \<Rightarrow> string + nat" where
  "durationTerms fraction d s =
     (if s = [] then Inr d
      else case durationTerm fraction s of
        Inl err \<Rightarrow> Inl err
      | Inr (v, rest) \<Rightarrow>
          if (d + v) mod 2 ^ 64 > 2 ^ 63 then Inl ''time: invalid duration''
          else durationTerms fraction ((d + v) mod 2 ^ 64) rest)"
  by pat_completeness auto
termination
proof (relation "measure (\<lambda>(fraction, d, s). length s)")
  show "wf (measure (\<lambda>(fraction, d, s). length s))" by simp
next
  fix fraction :: "nat \<Rightarrow> nat \<Rightarrow> nat \<Rightarrow> nat" and d :: nat and s :: string and x2 x y
  assume "s \<noteq> []" "durationTerm fraction s = Inr x2" "(x, y) = x2"
  then show "((fraction, (d + x) mod 2 ^ 64, y), (fraction, d, s)) \<in> measure (\<lambda>(fraction, d, s). length s)"
    using durationTerm_shorter [of fraction s x y] by simp
qed

declare durationTerms.simps [simp del]

definition time_ParseDuration :: "(nat \<Rightarrow> nat \<Rightarrow> nat \<Rightarrow> nat) \<Rightarrow> string \<Rightarrow> string + Duration" where
  "time_ParseDuration fraction orig =
     (let neg = (orig \<noteq> [] \<and> hd orig = CHR ''-'');
          s = (if orig \<noteq> [] \<and> (hd orig = CHR ''-'' \<or> hd orig = CHR ''+'') then tl orig else orig)
      in if s = ''0'' then Inr 0
         else if s = [] then Inl ''time: invalid duration''
         else case durationTerms fraction 0 s of
           Inl err \<Rightarrow> Inl err
         | Inr d \<Rightarrow>
             if neg then Inr (- word_of_nat d)
             else if d > 2 ^ 63 - 1 then Inl ''time: invalid duration''
             else Inr (word_of_nat d))"

text \<open>A stand-in for the \<^verbatim>\<open>float64\<close> computation: the exact quotient, truncated.\<close>

definition exactFraction :: "nat \<Rightarrow> nat \<Rightarrow> nat \<Rightarrow> nat" where
  "exactFraction f unit k = f * unit div 10 ^ k"

section \<open>Mercury transmitter server (package mercurytransmitter)\<close>

text \<open>
  A \<^verbatim>\<open>server\<close> owns the transmit queue of one Mercury server and runs two loops:
  \<^verbatim>\<open>runQueueLoop\<close> pops transmissions and sends them, \<^verbatim>\<open>runDeleteQueueLoop\<close> deletes
  transmitted records from the database. The queue, the wsrpc client, the ORM, the
  context and the stop channel are collaborators outside the sources. Each loop is a
  function of the answers these collaborators give; what the loop asks of them is
  appended, in order, to the field \<open>effects\<close> of the server.
\<close>

type_synonym bytes = "8 word list"

datatype ReportFormat =
    ReportFormatJSON
  | ReportFormatEVMPremiumLegacy
  | ReportFormatOther "32 word"

text \<open>
  \<open>ReportFormatOther\<close> stands for every value of \<^verbatim>\<open>llotypes.ReportFormat\<close> other than
  the two the \<^verbatim>\<open>switch\<close> of \<^verbatim>\<open>transmit\<close> names. \<open>Hash\<close> is the value of \<^verbatim>\<open>t.Hash()\<close>,
  which code outside the sources derives from the other fields.
\<close>

record Transmission =
  ConfigDigest :: bytes
  SeqNr :: "64 word"
  Report_Info_ReportFormat :: ReportFormat
  Report_Report :: bytes
  Sigs :: "bytes list"
  Hash :: bytes

record TransmitRequest =
  Payload :: bytes
  req_ReportFormat :: ReportFormat

record TransmitResponse =
  Code :: "32 word"
  Error :: string

type_synonym ReportPacker = "bytes \<Rightarrow> 64 word \<Rightarrow> bytes \<Rightarrow> bytes list \<Rightarrow> string + bytes"

datatype level = DebugLevel | ErrorLevel | CriticalLevel

datatype event =
    ClientTransmit TransmitRequest
  | QueuePush Transmission
  | OrmDelete "bytes list"
  | BackoffWait nat nat
  | Log level string

text \<open>
  \<open>ClientTransmit\<close> is a call of \<^verbatim>\<open>s.c.Transmit\<close>, \<open>QueuePush\<close> of \<^verbatim>\<open>s.q.Push\<close>,
  \<open>OrmDelete\<close> of \<^verbatim>\<open>s.pm.orm.Delete\<close>; \<open>BackoffWait lo hi\<close> is a wait on
  \<^verbatim>\<open>time.After(b.Duration())\<close> whose jittered duration lies between \<open>lo\<close> and \<open>hi\<close>
  nanoseconds; \<open>Log\<close> is a line written to the logger.
\<close>

record server =
  deleteQueue :: "bytes list"
  deleteQueueCap :: nat
  evmPremiumLegacyPacker :: ReportPacker
  jsonPacker :: ReportPacker
  transmitSuccessCount :: nat
  transmitDuplicateCount :: nat
  transmitConnectionErrorCount :: nat
  transmitQueueDeleteErrorCount :: nat
  transmitServerErrorCount :: "32 word \<Rightarrow> nat"
  transmitThreadBusyCount :: int
  deleteThreadBusyCount :: int
  effects :: "event list"

text \<open>
  \<open>deleteQueue\<close> is the content of the buffered channel and \<open>deleteQueueCap\<close> its
  capacity; \<open>transmitServerErrorCount\<close> is the counter vector
  \<^verbatim>\<open>promTransmitServerErrorCount\<close> of this server, by response code.
\<close>

text \<open>
  \<^verbatim>\<open>newServer\<close>, for the fields above: an empty channel of capacity
  \<^verbatim>\<open>cfg.TransmitQueueMaxSize()\<close>, the two packers, counters and busy counts at zero.
\<close>

definition newServer :: "nat \<Rightarrow> ReportPacker \<Rightarrow> ReportPacker \<Rightarrow> server" where
  "newServer TransmitQueueMaxSize evmPacker jsonCodec =
     \<lparr>deleteQueue = [], deleteQueueCap = TransmitQueueMaxSize,
      evmPremiumLegacyPacker = evmPacker, jsonPacker = jsonCodec,
      transmitSuccessCount = 0, transmitDuplicateCount = 0,
      transmitConnectionErrorCount = 0, transmitQueueDeleteErrorCount = 0,
      transmitServerErrorCount = (\<lambda>code. 0),
      transmitThreadBusyCount = 0, deleteThreadBusyCount = 0, effects = []\<rparr>"

definition emit :: "event \<Rightarrow> server \<Rightarrow> server" where
  "emit e s = s\<lparr>effects := effects s @ [e]\<rparr>"

subsection \<open>Backoff\<close>

text \<open>
  Modelled from the spec: the type \<^verbatim>\<open>backoff.Backoff\<close> (github.com/jpillora/backoff) is
  not among the sources. The spec describes it as an exponentially growing wait between
  retries, "starting 5ms, doubling, capped at 1s, randomized/jittered" for the transmit
  loop and "starting 1s, doubling, capped at 120s, randomized" for the delete loop, that
  "resets to its floor" on success. The fields are those the sources set; \<open>attempt\<close>
  counts the calls of \<^verbatim>\<open>Duration\<close> since the last \<^verbatim>\<open>Reset\<close>. Durations are in
  nanoseconds. The jitter is random, so \<^verbatim>\<open>Duration\<close> is modelled by the interval the
  wait is drawn from: from the floor to the capped exponential.
\<close>

record Backoff =
  bMin :: nat
  bMax :: nat
  bFactor :: nat
  bJitter :: bool
  attempt :: nat

definition Backoff_ceiling :: "Backoff \<Rightarrow> nat" where
  \<comment> \<open>Modelled from the spec: floor times factor to the number of attempts, capped.\<close>
  "Backoff_ceiling b = min (bMax b) (bMin b * bFactor b ^ attempt b)"

definition Backoff_Duration :: "Backoff \<Rightarrow> (nat \<times> nat) \<times> Backoff" where
  \<comment> \<open>Modelled from the spec: the interval of the jittered wait, and one more attempt.\<close>
  "Backoff_Duration b =
     ((if bJitter b then bMin b else Backoff_ceiling b, Backoff_ceiling b),
      b\<lparr>attempt := attempt b + 1\<rparr>)"

definition Backoff_Reset :: "Backoff \<Rightarrow> Backoff" where
  \<comment> \<open>Modelled from the spec: back to the floor.\<close>
  "Backoff_Reset b = b\<lparr>attempt := 0\<rparr>"

definition millisecond :: nat where
  "millisecond = 1000000"

definition second :: nat where
  "second = 1000000000"

text \<open>The backoff \<^verbatim>\<open>runQueueLoop\<close> declares, and the one of \<^verbatim>\<open>runDeleteQueueLoop\<close>.\<close>

definition queueBackoff :: Backoff where
  "queueBackoff = \<lparr>bMin = 5 * millisecond, bMax = 1 * second, bFactor = 2, bJitter = True,
                    attempt = 0\<rparr>"

definition deleteBackoff :: Backoff where
  "deleteBackoff = \<lparr>bMin = 1 * second, bMax = 120 * second, bFactor = 2, bJitter = True,
                     attempt = 0\<rparr>"

subsection \<open>transmit\<close>

text \<open>
  The result is the triple \<^verbatim>\<open>(req, resp, err)\<close>, with \<open>None\<close> for \<^verbatim>\<open>nil\<close>, and
  the calls made to the client. \<open>clientReply\<close> is what \<^verbatim>\<open>s.c.Transmit\<close> answers
  if it is called. Both error paths return before a request is built.
\<close>

definition transmit ::
  "server \<Rightarrow> TransmitResponse option \<times> string option \<Rightarrow> Transmission
     \<Rightarrow> (TransmitRequest option \<times> TransmitResponse option \<times> string option) \<times> event list" where
  "transmit s clientReply t =
     (case (case Report_Info_ReportFormat t of
              ReportFormatJSON \<Rightarrow>
                Inr (jsonPacker s (ConfigDigest t) (SeqNr t) (Report_Report t) (Sigs t))
            | ReportFormatEVMPremiumLegacy \<Rightarrow>
                Inr (evmPremiumLegacyPacker s (ConfigDigest t) (SeqNr t) (Report_Report t) (Sigs t))
            | ReportFormatOther f \<Rightarrow>
                Inl ''Transmit failed; don't know how to Pack unsupported report format'') of
        Inl unsupported \<Rightarrow> ((None, None, Some unsupported), [])
      | Inr (Inl err) \<Rightarrow> ((None, None, Some (''Transmit: encode failed; '' @ err)), [])
      | Inr (Inr payload) \<Rightarrow>
          (let req = \<lparr>Payload = payload, req_ReportFormat = Report_Info_ReportFormat t\<rparr>
           in ((Some req, fst clientReply, snd clientReply), [ClientTransmit req])))"

subsection \<open>runQueueLoop\<close>

text \<open>
  The answers of the collaborators during one iteration: what \<^verbatim>\<open>BlockingPop\<close> returns
  (\<open>None\<close> when the queue is closed), what the client answers, whether the loop's context
  is cancelled after the send, whether \<^verbatim>\<open>Push\<close> accepts the record, and whether the
  stop channel fires before the backoff timer.
\<close>

record queue_answers =
  popped :: "Transmission option"
  clientReply :: "TransmitResponse option \<times> string option"
  ctxCancelled :: bool
  pushAccepted :: bool
  stopFirst :: bool

text \<open>
  The iteration returns \<^verbatim>\<open>true\<close> (\<open>Continue\<close>) or \<^verbatim>\<open>false\<close> (\<open>Exit\<close>), or panics when
  it reads a field through a \<^verbatim>\<open>nil\<close> request or response (\<open>Panic\<close>).
\<close>

datatype 'a outcome = Continue 'a | Exit 'a | Panic 'a

fun state_of :: "'a outcome \<Rightarrow> 'a" where
  "state_of (Continue x) = x"
| "state_of (Exit x) = x"
| "state_of (Panic x) = x"

text \<open>The deferred \<^verbatim>\<open>s.transmitThreadBusyCount.Add(-1)\<close>; it also runs when the body panics.\<close>

definition deferred :: "server \<Rightarrow> server" where
  "deferred s = s\<lparr>transmitThreadBusyCount := transmitThreadBusyCount s - 1\<rparr>"

text \<open>
  The non-blocking send \<^verbatim>\<open>select { case s.deleteQueue <- t.Hash(): default: ... }\<close>:
  the hash is enqueued when the buffer has room, otherwise the \<^verbatim>\<open>default\<close> case logs
  and the hash is dropped.
\<close>

definition requestDelete :: "Transmission \<Rightarrow> server \<Rightarrow> server" where
  "requestDelete t s =
     (if length (deleteQueue s) < deleteQueueCap s
      then s\<lparr>deleteQueue := deleteQueue s @ [Hash t]\<rparr>
      else emit (Log CriticalLevel ''Delete queue is full'') s)"

text \<open>
  The classification of a reply that came back without a transport error: first the
  counters, then the log line, whose arguments read the request. The constant
  \<^verbatim>\<open>DuplicateReport\<close> is declared outside the sources and is a parameter.
\<close>

definition classify_count :: "32 word \<Rightarrow> TransmitResponse \<Rightarrow> server \<Rightarrow> server" where
  "classify_count DuplicateReport res s =
     (if Error res = []
      then s\<lparr>transmitSuccessCount := transmitSuccessCount s + 1\<rparr>
      else if Code res = DuplicateReport
      then s\<lparr>transmitSuccessCount := transmitSuccessCount s + 1,
             transmitDuplicateCount := transmitDuplicateCount s + 1\<rparr>
      else s\<lparr>transmitServerErrorCount :=
               (transmitServerErrorCount s)(Code res := transmitServerErrorCount s (Code res) + 1)\<rparr>)"

definition classify_log :: "32 word \<Rightarrow> TransmitResponse \<Rightarrow> event" where
  "classify_log DuplicateReport res =
     (if Error res = [] then Log DebugLevel ''Transmit report success''
      else if Code res = DuplicateReport
      then Log DebugLevel ''Transmit report success; duplicate report''
      else Log ErrorLevel ''Transmit report failed; mercury server returned error'')"

text \<open>
  The body of the loop, the function literal that \<^verbatim>\<open>cont\<close> is assigned from. In the
  branch for \<^verbatim>\<open>err != nil\<close> the arguments of the log call read \<^verbatim>\<open>req.Payload\<close> and
  \<^verbatim>\<open>req.ReportFormat\<close> before anything is pushed: with the \<^verbatim>\<open>nil\<close> request that
  \<^verbatim>\<open>transmit\<close> returns on its two error paths this is a nil pointer dereference.
\<close>

definition runQueueLoop_body ::
  "32 word \<Rightarrow> queue_answers \<Rightarrow> server \<times> Backoff \<Rightarrow> (server \<times> Backoff) outcome" where
  "runQueueLoop_body DuplicateReport env sb =
     (case popped env of
        None \<Rightarrow> Exit sb
      | Some t \<Rightarrow>
          (let s0 = (fst sb)\<lparr>transmitThreadBusyCount := transmitThreadBusyCount (fst sb) + 1\<rparr>;
               b = snd sb;
               sent = transmit s0 (clientReply env) t;
               req = fst (fst sent);
               res = fst (snd (fst sent));
               err = snd (snd (fst sent));
               s1 = s0\<lparr>effects := effects s0 @ snd sent\<rparr>
           in if ctxCancelled env then Exit (deferred s1, b)
              else if err \<noteq> None then
                (let s2 = s1\<lparr>transmitConnectionErrorCount := transmitConnectionErrorCount s1 + 1\<rparr>
                 in case req of
                      None \<Rightarrow> Panic (deferred s2, b)
                    | Some r \<Rightarrow>
                        (let s3 = emit (QueuePush t) (emit (Log ErrorLevel ''Transmit report failed'') s2)
                         in if \<not> pushAccepted env
                            then Exit (deferred (emit (Log ErrorLevel
                                   ''Failed to push report to transmit queue; queue is closed'') s3), b)
                            else (let w = fst (Backoff_Duration b);
                                      b' = snd (Backoff_Duration b);
                                      s4 = emit (BackoffWait (fst w) (snd w)) s3
                                  in if stopFirst env then Exit (deferred s4, b')
                                     else Continue (deferred s4, b'))))
              else
                (let b' = Backoff_Reset b
                 in case res of
                      None \<Rightarrow> Panic (deferred s1, b')
                    | Some r \<Rightarrow>
                        (let s2 = classify_count DuplicateReport r s1
                         in case req of
                              None \<Rightarrow> Panic (deferred s2, b')
                            | Some q \<Rightarrow>
                                Continue (deferred (requestDelete t
                                  (emit (classify_log DuplicateReport r) s2)), b')))))"

text \<open>
  The loop \<^verbatim>\<open>for cont { cont = func() bool {...}() }\<close> over the answers of successive
  iterations. When the answers are used up the loop is still running (\<open>Continue\<close>).
\<close>

fun runQueueLoop_from ::
  "32 word \<Rightarrow> queue_answers list \<Rightarrow> server \<times> Backoff \<Rightarrow> (server \<times> Backoff) outcome" where
  "runQueueLoop_from DuplicateReport [] sb = Continue sb"
| "runQueueLoop_from DuplicateReport (env # envs) sb =
     (case runQueueLoop_body DuplicateReport env sb of
        Continue sb' \<Rightarrow> runQueueLoop_from DuplicateReport envs sb'
      | Exit sb' \<Rightarrow> Exit sb'
      | Panic sb' \<Rightarrow> Panic sb')"

definition runQueueLoop :: "32 word \<Rightarrow> queue_answers list \<Rightarrow> server \<Rightarrow> (server \<times> Backoff) outcome" where
  "runQueueLoop DuplicateReport envs s = runQueueLoop_from DuplicateReport envs (s, queueBackoff)"

subsection \<open>runDeleteQueueLoop\<close>

text \<open>
  One answer of the ORM to \<^verbatim>\<open>Delete\<close>: success, or an error together with whether
  the stop channel fires before the backoff timer of the wait that follows.
\<close>

datatype delete_answer = DeleteOk | DeleteFails string bool

text \<open>
  The inner loop that deletes one hash, over the answers to successive attempts. It ends
  by \<^verbatim>\<open>break\<close> after a successful delete (\<open>Continue\<close>) or by \<^verbatim>\<open>return\<close> on the stop
  signal (\<open>Exit\<close>); when the answers are used up and every one was a failure the loop is
  still retrying, which is \<open>None\<close>. The busy counter is incremented at every attempt.
\<close>

fun deleteWithRetry ::
  "bytes \<Rightarrow> delete_answer list \<Rightarrow> server \<times> Backoff \<Rightarrow> (server \<times> Backoff) outcome option" where
  "deleteWithRetry hash [] sb = None"
| "deleteWithRetry hash (a # answers) sb =
     (let s0 = emit (OrmDelete [hash])
                 ((fst sb)\<lparr>deleteThreadBusyCount := deleteThreadBusyCount (fst sb) + 1\<rparr>);
          b = snd sb
      in case a of
           DeleteOk \<Rightarrow> Some (Continue (s0, b))
         | DeleteFails err stop \<Rightarrow>
             (let s1 = (emit (Log ErrorLevel ''Failed to delete transmission record'') s0)
                         \<lparr>transmitQueueDeleteErrorCount := transmitQueueDeleteErrorCount s0 + 1\<rparr>;
                  w = fst (Backoff_Duration b);
                  b' = snd (Backoff_Duration b);
                  s2 = emit (BackoffWait (fst w) (snd w)) s1
              in if stop
                 then Some (Exit (s2\<lparr>deleteThreadBusyCount := deleteThreadBusyCount s2 - 1\<rparr>, b'))
                 else deleteWithRetry hash answers (s2, b')))"

text \<open>
  One iteration of the outer loop: the \<^verbatim>\<open>select\<close> either receives the stop signal or
  the hash at the head of the channel, with the answers the ORM gives for it. With an
  empty channel and no stop signal the \<^verbatim>\<open>select\<close> blocks, which is \<open>None\<close> as well.
\<close>

datatype delete_select = StopSignal | Receive "delete_answer list"

definition runDeleteQueueLoop_body ::
  "delete_select \<Rightarrow> server \<times> Backoff \<Rightarrow> (server \<times> Backoff) outcome option" where
  "runDeleteQueueLoop_body sel sb =
     (case sel of
        StopSignal \<Rightarrow> Some (Exit sb)
      | Receive answers \<Rightarrow>
          (case deleteQueue (fst sb) of
             [] \<Rightarrow> None
           | hash # queued \<Rightarrow>
               (case deleteWithRetry hash answers ((fst sb)\<lparr>deleteQueue := queued\<rparr>, snd sb) of
                  None \<Rightarrow> None
                | Some (Continue sb') \<Rightarrow>
                    Some (Continue ((fst sb')\<lparr>deleteThreadBusyCount :=
                                       deleteThreadBusyCount (fst sb') - 1\<rparr>,
                                    Backoff_Reset (snd sb')))
                | Some (Exit sb') \<Rightarrow> Some (Exit sb')
                | Some (Panic sb') \<Rightarrow> Some (Panic sb'))))"

fun runDeleteQueueLoop_from ::
  "delete_select list \<Rightarrow> server \<times> Backoff \<Rightarrow> (server \<times> Backoff) outcome option" where
  "runDeleteQueueLoop_from [] sb = Some (Continue sb)"
| "runDeleteQueueLoop_from (sel # sels) sb =
     (case runDeleteQueueLoop_body sel sb of
        Some (Continue sb') \<Rightarrow> runDeleteQueueLoop_from sels sb'
      | other \<Rightarrow> other)"

definition runDeleteQueueLoop :: "delete_select list \<Rightarrow> server \<Rightarrow> (server \<times> Backoff) outcome option" where
  "runDeleteQueueLoop sels s = runDeleteQueueLoop_from sels (s, deleteBackoff)"

subsection \<open>Sample data\<close>

text \<open>
  Concrete values at which the loops are evaluated: a packer that returns the report
  bytes as they are, a record in JSON format, the same record with a format the
  \<^verbatim>\<open>switch\<close> does not know, and the answers of an iteration in which the context is not
  cancelled, the queue accepts a push and the backoff timer fires before the stop signal.
\<close>

definition rawPacker :: ReportPacker where
  "rawPacker digest seqNr report sigs = Inr report"

definition jsonRecord :: Transmission where
  "jsonRecord = \<lparr>ConfigDigest = [1], SeqNr = 7, Report_Info_ReportFormat = ReportFormatJSON,
                  Report_Report = [10, 20], Sigs = [], Hash = [42]\<rparr>"


definition answersOf :: "TransmitResponse option \<times> string option \<Rightarrow> Transmission \<Rightarrow> queue_answers" where
  "answersOf reply t = \<lparr>popped = Some t, clientReply = reply, ctxCancelled = False,
                         pushAccepted = True, stopFirst = False\<rparr>"

section \<open>Properties of the transmission schedule\<close>

lemma oneAtATime_loop_eq: "oneAtATime_loop i N sch = sch @ replicate (nat (N - i)) 1"
proof (induction i N sch rule: oneAtATime_loop.induct)
  case (1 i N sch)
  show ?case
  proof (cases "i < N")
    case True
    then have "nat (N - i) = Suc (nat (N - (i + 1)))" by simp
    with True "1" show ?thesis
      by (simp add: replicate_append_same del: oneAtATime_loop.simps add: oneAtATime_loop.simps [of i N sch])
  next
    case False
    then show ?thesis by simp
  qed
qed

lemma createTransmissionSchedule_AllAtOnce:
  "createTransmissionSchedule Schedule_AllAtOnce N = Inr [N]"
  by (simp add: createTransmissionSchedule_def)

lemma createTransmissionSchedule_OneAtATime:
  "createTransmissionSchedule Schedule_OneAtATime N = Inr (replicate (nat N) 1)"
  by (simp add: createTransmissionSchedule_def oneAtATime_loop_eq Schedule_AllAtOnce_def
      Schedule_OneAtATime_def del: oneAtATime_loop.simps)

lemma delayFor_loop_finds:
  "position < length p \<Longrightarrow> \<forall>s\<in>set sch. 0 \<le> s \<Longrightarrow> p ! position < acc + sum_list sch
     \<Longrightarrow> acc \<le> p ! position
     \<Longrightarrow> \<exists>delay. delayFor_loop position p d acc i sch = Inr (Some delay)"
proof (induction sch arbitrary: acc i)
  case Nil
  then show ?case by simp
next
  case (Cons s sch)
  show ?case
  proof (cases "p ! position < acc + s")
    case True
    with Cons.prems show ?thesis by simp
  next
    case False
    then have "acc + s \<le> p ! position" by simp
    moreover from Cons.prems have "p ! position < (acc + s) + sum_list sch" by simp
    moreover from Cons.prems have "\<forall>s\<in>set sch. 0 \<le> s" by simp
    ultimately obtain delay where
      "delayFor_loop position p d (acc + s) (i + 1) sch = Inr (Some delay)"
      using Cons.IH [of "acc + s" "i + 1"] Cons.prems(1) by blast
    with False Cons.prems(1) show ?thesis by simp
  qed
qed

lemma delayFor_loop_ones:
  "position < length p \<Longrightarrow> acc \<le> p ! position \<Longrightarrow> p ! position < acc + int n
     \<Longrightarrow> delayFor_loop position p d acc i (replicate n 1)
         = Inr (Some (word_of_nat (i + nat (p ! position - acc)) * d))"
proof (induction n arbitrary: acc i)
  case 0
  then show ?case by simp
next
  case (Suc n)
  show ?case
  proof (cases "p ! position < acc + 1")
    case True
    with Suc.prems have "p ! position = acc" by simp
    with Suc.prems(1) show ?thesis by simp
  next
    case False
    then have le: "acc + 1 \<le> p ! position" by simp
    from Suc.prems have "p ! position < (acc + 1) + int n" by simp
    from Suc.IH [OF Suc.prems(1) le this, of "i + 1"] False Suc.prems(1) le
    show ?thesis by (simp add: nat_diff_distrib' Suc_nat_eq_nat_zadd1 nat_add_distrib)
  qed
qed

lemma delayFor_OneAtATime:
  "position < length p \<Longrightarrow> 0 \<le> p ! position \<Longrightarrow> p ! position < int n
     \<Longrightarrow> delayFor position (replicate n 1) p d = Inr (Some (word_of_nat (nat (p ! position)) * d))"
  using delayFor_loop_ones [of position p 0 n d 0] by (simp add: delayFor_def)

lemma delayFor_AllAtOnce:
  "position < length p \<Longrightarrow> p ! position < N \<Longrightarrow> delayFor position [N] p d = Inr (Some 0)"
  by (simp add: delayFor_def)

lemma assignDelays_lookup:
  "distinct ids \<Longrightarrow> \<forall>j<length ids. delayFor (i + j) sch picked d = Inr (Some (g (i + j)))
     \<Longrightarrow> \<exists>m'. assignDelays i ids sch picked d m = Inr m'
            \<and> dom m' = dom m \<union> set ids
            \<and> (\<forall>k<length ids. m' (ids ! k) = Some (g (i + k)))
            \<and> (\<forall>q. q \<notin> set ids \<longrightarrow> m' q = m q)"
proof (induction ids arbitrary: i m)
  case Nil
  then show ?case by simp
next
  case (Cons p rest)
  from Cons.prems have hd: "delayFor i sch picked d = Inr (Some (g i))" by force
  from Cons.prems have tl: "\<forall>j<length rest. delayFor (i + 1 + j) sch picked d = Inr (Some (g (i + 1 + j)))"
    by force
  from Cons.prems have dist: "distinct rest" and notin: "p \<notin> set rest" by simp_all
  from Cons.IH [OF dist tl, of "m(p \<mapsto> g i)"] obtain m' where
    m': "assignDelays (i + 1) rest sch picked d (m(p \<mapsto> g i)) = Inr m'"
    "dom m' = dom (m(p \<mapsto> g i)) \<union> set rest"
    "\<forall>k<length rest. m' (rest ! k) = Some (g (i + 1 + k))"
    "\<forall>q. q \<notin> set rest \<longrightarrow> m' q = (m(p \<mapsto> g i)) q"
    by blast
  have "assignDelays i (p # rest) sch picked d m = Inr m'"
    using hd m'(1) by simp
  moreover have "dom m' = dom m \<union> set (p # rest)"
    using m'(2) by auto
  moreover have "\<forall>k<length (p # rest). m' ((p # rest) ! k) = Some (g (i + k))"
  proof (intro allI impI)
    fix k assume "k < length (p # rest)"
    then show "m' ((p # rest) ! k) = Some (g (i + k))"
      using m'(3) m'(4) notin by (cases k) auto
  qed
  moreover have "\<forall>q. q \<notin> set (p # rest) \<longrightarrow> m' q = m q"
    using m'(4) by auto
  ultimately show ?case by blast
qed

lemma is_permutation_length: "is_permutation n picked \<Longrightarrow> length picked = n"
  unfolding is_permutation_def using mset_eq_length by fastforce

lemma is_permutation_range:
  "is_permutation n picked \<Longrightarrow> k < n \<Longrightarrow> 0 \<le> picked ! k \<and> picked ! k < int n"
proof -
  assume p: "is_permutation n picked" and k: "k < n"
  then have "picked ! k \<in> set picked" by (simp add: is_permutation_length)
  moreover from p have "set picked = set (map int [0..<n])"
    unfolding is_permutation_def by (rule mset_eq_setD)
  ultimately show ?thesis by auto
qed

lemma is_permutation_distinct: "is_permutation n picked \<Longrightarrow> distinct picked"
proof -
  assume "is_permutation n picked"
  then have "mset picked = mset (map int [0..<n])" by (simp add: is_permutation_def)
  moreover have "distinct (map int [0..<n])" by (simp add: distinct_map)
  ultimately show ?thesis using mset_eq_imp_distinct_iff by blast
qed

lemma is_permutation_onto:
  "is_permutation n picked \<Longrightarrow> i < n \<Longrightarrow> \<exists>k<n. picked ! k = int i"
proof -
  assume p: "is_permutation n picked" and i: "i < n"
  from p have "set picked = set (map int [0..<n])"
    unfolding is_permutation_def by (rule mset_eq_setD)
  with i have "int i \<in> set picked" by simp
  then show ?thesis using is_permutation_length [OF p] by (auto simp: in_set_conv_nth)
qed

lemma assignDelays_dom:
  "\<forall>j<length ids. \<exists>v. delayFor (i + j) sch picked d = Inr (Some v)
     \<Longrightarrow> \<exists>m'. assignDelays i ids sch picked d m = Inr m' \<and> dom m' = dom m \<union> set ids"
proof (induction ids arbitrary: i m)
  case Nil
  then show ?case by simp
next
  case (Cons p rest)
  from Cons.prems obtain v where hd: "delayFor i sch picked d = Inr (Some v)" by force
  from Cons.prems have tl: "\<forall>j<length rest. \<exists>v. delayFor (i + 1 + j) sch picked d = Inr (Some v)"
    by force
  from Cons.IH [OF tl, of "m(p \<mapsto> v)"] obtain m' where
    "assignDelays (i + 1) rest sch picked d (m(p \<mapsto> v)) = Inr m'"
    "dom m' = dom (m(p \<mapsto> v)) \<union> set rest"
    by blast
  with hd have "assignDelays i (p # rest) sch picked d m = Inr m'"
    and "dom m' = dom m \<union> set (p # rest)"
    by auto
  then show ?case by blast
qed

lemma OneAtATime_assignment:
  assumes dist: "distinct ids"
    and perm: "is_permutation (length ids) picked"
  shows "\<exists>m. assignDelays 0 ids (replicate (length ids) 1) picked d Map.empty = Inr m
           \<and> dom m = set ids
           \<and> (\<forall>k<length ids. m (ids ! k) = Some (word_of_nat (nat (picked ! k)) * d))"
proof -
  let ?g = "\<lambda>k. word_of_nat (nat (picked ! k)) * d"
  have "\<forall>j<length ids. delayFor (0 + j) (replicate (length ids) 1) picked d = Inr (Some (?g (0 + j)))"
    using is_permutation_range [OF perm] is_permutation_length [OF perm]
    by (simp add: delayFor_OneAtATime)
  from assignDelays_lookup [OF dist this, of Map.empty] show ?thesis by auto
qed

lemma mset_values_of_assignment:
  assumes dist: "distinct ids"
    and dom: "dom m = set ids"
    and look: "\<forall>k<length ids. m (ids ! k) = Some (h (picked ! k))"
    and len: "length picked = length ids"
  shows "image_mset (\<lambda>p. the (m p)) (mset_set (dom m)) = image_mset h (mset picked)"
proof -
  have "map (\<lambda>p. the (m p)) ids = map h picked"
    using look len by (intro nth_equalityI) simp_all
  then have "mset (map (\<lambda>p. the (m p)) ids) = mset (map h picked)" by simp
  moreover have "mset_set (dom m) = mset ids"
    using dist dom by (simp add: mset_set_set)
  ultimately show ?thesis by simp
qed

text \<open>
  Claim C1. With \<open>N\<close> distinct peers and the schedule \<^verbatim>\<open>oneAtATime\<close>, where the libocr
  permutation returns a permutation of \<open>[0..N)\<close>, the call succeeds, every peer is in the
  map, and the multiset of the assigned delays is \<open>{0, d, 2d, ..., (N-1)d}\<close>, the products
  being those of \<^verbatim>\<open>time.Duration\<close>. The delays are matched one to one with the peers;
  where the \<open>N\<close> products are pairwise different, each of them is the delay of exactly
  one peer.
\<close>

theorem OneAtATime_delays:
  assumes dist: "distinct donPeerIDs"
    and sched: "Schedule tc = Schedule_OneAtATime"
    and perm: "is_permutation (length donPeerIDs)
                 (Permutation (length donPeerIDs) (transmissionScheduleSeed keccak transmissionID))"
  shows "\<exists>m. GetPeerIDToTransmissionDelaysForConfig keccak Permutation donPeerIDs transmissionID tc = Inr m
           \<and> dom m = set donPeerIDs
           \<and> image_mset (\<lambda>p. the (m p)) (mset_set (dom m))
               = mset (map (\<lambda>i. word_of_nat i * DeltaStage tc) [0..<length donPeerIDs])
           \<and> (inj_on (\<lambda>i. word_of_nat i * DeltaStage tc) {..<length donPeerIDs} \<longrightarrow>
                (\<forall>i<length donPeerIDs. \<exists>!p. m p = Some (word_of_nat i * DeltaStage tc)))"
proof -
  let ?N = "length donPeerIDs"
  let ?picked = "Permutation ?N (transmissionScheduleSeed keccak transmissionID)"
  let ?d = "DeltaStage tc"
  let ?h = "\<lambda>r. word_of_nat (nat r) * ?d"
  from OneAtATime_assignment [OF dist perm, of ?d] obtain m where
    run: "assignDelays 0 donPeerIDs (replicate ?N 1) ?picked ?d Map.empty = Inr m"
    and dom: "dom m = set donPeerIDs"
    and look: "\<forall>k<?N. m (donPeerIDs ! k) = Some (?h (?picked ! k))"
    by blast
  have res: "GetPeerIDToTransmissionDelaysForConfig keccak Permutation donPeerIDs transmissionID tc = Inr m"
    using run sched
    by (simp add: GetPeerIDToTransmissionDelaysForConfig_def createTransmissionSchedule_OneAtATime)
  have "image_mset (\<lambda>p. the (m p)) (mset_set (dom m)) = image_mset ?h (mset ?picked)"
    using mset_values_of_assignment [OF dist dom look] is_permutation_length [OF perm] by simp
  also have "\<dots> = image_mset ?h (mset (map int [0..<?N]))"
    using perm by (simp add: is_permutation_def)
  also have "\<dots> = mset (map (\<lambda>i. word_of_nat i * ?d) [0..<?N])"
    by (simp add: image_mset.compositionality comp_def del: mset_upt)
  finally have vals: "image_mset (\<lambda>p. the (m p)) (mset_set (dom m))
      = mset (map (\<lambda>i. word_of_nat i * ?d) [0..<?N])" .
  have uniq: "\<forall>i<?N. \<exists>!p. m p = Some (word_of_nat i * ?d)"
    if inj: "inj_on (\<lambda>i. word_of_nat i * ?d) {..<?N}"
  proof (intro allI impI)
    fix i assume i: "i < ?N"
    from is_permutation_onto [OF perm i] obtain k where k: "k < ?N" "?picked ! k = int i"
      by blast
    with look have ex: "m (donPeerIDs ! k) = Some (word_of_nat i * ?d)" by simp
    have "q = donPeerIDs ! k" if q: "m q = Some (word_of_nat i * ?d)" for q
    proof -
      from q dom have "q \<in> set donPeerIDs" by auto
      then obtain k' where k': "k' < ?N" "donPeerIDs ! k' = q"
        by (auto simp: in_set_conv_nth)
      with look q have eq: "?h (?picked ! k') = word_of_nat i * ?d" by auto
      from is_permutation_range [OF perm k'(1)] have r: "nat (?picked ! k') < ?N" "0 \<le> ?picked ! k'"
        by linarith+
      from inj eq r(1) i have "nat (?picked ! k') = i" by (auto dest: inj_onD)
      with r(2) k(2) have "?picked ! k' = ?picked ! k" by simp
      with is_permutation_distinct [OF perm] k(1) k'(1) is_permutation_length [OF perm]
      have "k' = k" by (simp add: nth_eq_iff_index_eq)
      with k'(2) show ?thesis by simp
    qed
    with ex show "\<exists>!p. m p = Some (word_of_nat i * ?d)" by blast
  qed
  from res dom vals uniq show ?thesis by blast
qed

text \<open>
  Three peers, one second apart, with the permutation \<open>[2, 0, 1]\<close>.
\<close>

theorem OneAtATime_delays_witness:
  "distinct [''A'', ''B'', ''C'']
   \<and> is_permutation 3 [2, 0, 1]
   \<and> (\<exists>m. GetPeerIDToTransmissionDelaysForConfig (\<lambda>bs. replicate 32 0) (\<lambda>n key. [2, 0, 1])
              [''A'', ''B'', ''C''] ''exec-1''
              \<lparr>Schedule = Schedule_OneAtATime, DeltaStage = 1000000000\<rparr> = Inr m
          \<and> dom m = {''A'', ''B'', ''C''}
          \<and> image_mset (\<lambda>p. the (m p)) (mset_set (dom m)) = {#0, 1000000000, 2000000000#})"
proof -
  let ?ids = "[''A'', ''B'', ''C'']"
  let ?tc = "\<lparr>Schedule = Schedule_OneAtATime, DeltaStage = 1000000000\<rparr>"
  have h1: "distinct ?ids" by simp
  have p: "is_permutation 3 [2, 0, 1]"
    by (simp add: is_permutation_def upt_rec)
  have h2: "Schedule ?tc = Schedule_OneAtATime"
    by simp
  have h3: "is_permutation (length ?ids)
              ((\<lambda>n key. [2, 0, 1]) (length ?ids)
                 (transmissionScheduleSeed (\<lambda>bs. replicate 32 0) ''exec-1''))"
    using p by (simp add: eval_nat_numeral)
  from OneAtATime_delays [where keccak = "\<lambda>bs. replicate 32 0" and transmissionID = "''exec-1''",
      OF h1 h2 h3]
  obtain m where m: "GetPeerIDToTransmissionDelaysForConfig (\<lambda>bs. replicate 32 0) (\<lambda>n key. [2, 0, 1])
              ?ids ''exec-1'' ?tc = Inr m"
    and d: "dom m = set ?ids"
    and v: "image_mset (\<lambda>p. the (m p)) (mset_set (dom m))
             = mset (map (\<lambda>i. word_of_nat i * DeltaStage ?tc) [0..<length ?ids])"
    by blast
  have "[0..<length ?ids] = [0, 1, 2]" by (simp add: upt_rec)
  with v have "image_mset (\<lambda>p. the (m p)) (mset_set (dom m)) = {#0, 1000000000, 2000000000#}"
    by simp
  moreover from d have "dom m = {''A'', ''B'', ''C''}" by simp
  ultimately show ?thesis using h1 p m by blast
qed

text \<open>
  Claim C5. With \<open>N\<close> distinct peers and the schedule \<^verbatim>\<open>allAtOnce\<close>, where the libocr
  permutation returns a permutation of \<open>[0..N)\<close>, every peer is in the returned map with
  delay 0 and the map has \<open>N\<close> entries.
\<close>

theorem AllAtOnce_delays:
  assumes dist: "distinct donPeerIDs"
    and sched: "Schedule tc = Schedule_AllAtOnce"
    and perm: "is_permutation (length donPeerIDs)
                 (Permutation (length donPeerIDs) (transmissionScheduleSeed keccak transmissionID))"
  shows "\<exists>m. GetPeerIDToTransmissionDelaysForConfig keccak Permutation donPeerIDs transmissionID tc = Inr m
           \<and> (\<forall>p\<in>set donPeerIDs. m p = Some 0)
           \<and> dom m = set donPeerIDs
           \<and> card (dom m) = length donPeerIDs"
proof -
  let ?N = "length donPeerIDs"
  let ?picked = "Permutation ?N (transmissionScheduleSeed keccak transmissionID)"
  have "\<forall>j<?N. delayFor (0 + j) [int ?N] ?picked (DeltaStage tc) = Inr (Some ((\<lambda>_. 0) (0 + j)))"
    using is_permutation_range [OF perm] is_permutation_length [OF perm]
    by (simp add: delayFor_AllAtOnce)
  from assignDelays_lookup [OF dist this, of Map.empty] obtain m where
    run: "assignDelays 0 donPeerIDs [int ?N] ?picked (DeltaStage tc) Map.empty = Inr m"
    and dom: "dom m = set donPeerIDs"
    and look: "\<forall>k<?N. m (donPeerIDs ! k) = Some 0"
    by auto
  have "GetPeerIDToTransmissionDelaysForConfig keccak Permutation donPeerIDs transmissionID tc = Inr m"
    using run sched
    by (simp add: GetPeerIDToTransmissionDelaysForConfig_def createTransmissionSchedule_AllAtOnce)
  moreover have "\<forall>p\<in>set donPeerIDs. m p = Some 0"
    using look by (auto simp: in_set_conv_nth)
  moreover have "card (dom m) = ?N"
    using dom dist by (simp add: distinct_card)
  ultimately show ?thesis using dom by blast
qed

theorem AllAtOnce_delays_witness:
  "distinct [''A'', ''B'', ''C'']
   \<and> is_permutation 3 [2, 0, 1]
   \<and> (\<exists>m. GetPeerIDToTransmissionDelaysForConfig (\<lambda>bs. replicate 32 0) (\<lambda>n key. [2, 0, 1])
              [''A'', ''B'', ''C''] ''exec-1''
              \<lparr>Schedule = Schedule_AllAtOnce, DeltaStage = 1000000000\<rparr> = Inr m
          \<and> m ''A'' = Some 0 \<and> m ''B'' = Some 0 \<and> m ''C'' = Some 0
          \<and> card (dom m) = 3)"
proof -
  let ?ids = "[''A'', ''B'', ''C'']"
  let ?tc = "\<lparr>Schedule = Schedule_AllAtOnce, DeltaStage = 1000000000\<rparr>"
  have h1: "distinct ?ids" by simp
  have p: "is_permutation 3 [2, 0, 1]"
    by (simp add: is_permutation_def upt_rec)
  have h2: "Schedule ?tc = Schedule_AllAtOnce"
    by simp
  have h3: "is_permutation (length ?ids)
              ((\<lambda>n key. [2, 0, 1]) (length ?ids)
                 (transmissionScheduleSeed (\<lambda>bs. replicate 32 0) ''exec-1''))"
    using p by (simp add: eval_nat_numeral)
  from AllAtOnce_delays [where keccak = "\<lambda>bs. replicate 32 0" and transmissionID = "''exec-1''",
      OF h1 h2 h3]
  obtain m where m: "GetPeerIDToTransmissionDelaysForConfig (\<lambda>bs. replicate 32 0) (\<lambda>n key. [2, 0, 1])
              ?ids ''exec-1'' ?tc = Inr m"
    and z: "\<forall>p\<in>set ?ids. m p = Some 0"
    and c: "card (dom m) = length ?ids"
    by blast
  from z have "m ''A'' = Some 0" "m ''B'' = Some 0" "m ''C'' = Some 0" by simp_all
  moreover from c have "card (dom m) = 3" by simp
  ultimately show ?thesis using h1 p m by blast
qed

text \<open>
  Claim C3. For \<open>N \<ge> 0\<close> and either schedule name, \<^verbatim>\<open>createTransmissionSchedule\<close> returns
  non-negative integers whose sum is \<open>N\<close>. Hence \<^verbatim>\<open>delayFor\<close> finds a bucket for every
  position whose rank lies in \<open>[0..N)\<close>, it never returns \<^verbatim>\<open>nil\<close> there, and with a
  permutation of \<open>[0..N)\<close> every peer is a key of the delay map.
\<close>

theorem schedule_covers_every_rank:
  assumes N: "0 \<le> N"
    and name: "scheduleType = Schedule_AllAtOnce \<or> scheduleType = Schedule_OneAtATime"
  shows "\<exists>schedule. createTransmissionSchedule scheduleType N = Inr schedule
           \<and> (\<forall>s\<in>set schedule. 0 \<le> s)
           \<and> sum_list schedule = N
           \<and> (\<forall>permutation position deltaStage.
                 position < length permutation \<and> 0 \<le> permutation ! position
                   \<and> permutation ! position < N
                 \<longrightarrow> (\<exists>delay. delayFor position schedule permutation deltaStage = Inr (Some delay)))
           \<and> (\<forall>keccak Permutation (donPeerIDs :: 'peer list) transmissionID tc.
                 int (length donPeerIDs) = N \<and> Schedule tc = scheduleType
                   \<and> is_permutation (length donPeerIDs)
                        (Permutation (length donPeerIDs)
                           (transmissionScheduleSeed keccak transmissionID))
                 \<longrightarrow> (\<exists>m. GetPeerIDToTransmissionDelaysForConfig keccak Permutation
                              donPeerIDs transmissionID tc = Inr m
                          \<and> dom m = set donPeerIDs))"
proof -
  define schedule where "schedule = (if scheduleType = Schedule_AllAtOnce then [N] else replicate (nat N) 1)"
  have create: "createTransmissionSchedule scheduleType N = Inr schedule"
    using name
    by (auto simp: schedule_def createTransmissionSchedule_AllAtOnce
        createTransmissionSchedule_OneAtATime)
  have nonneg: "\<forall>s\<in>set schedule. 0 \<le> s"
    using N by (simp add: schedule_def)
  have total: "sum_list schedule = N"
    using N by (simp add: schedule_def sum_list_replicate)
  have finds: "\<exists>delay. delayFor position schedule permutation deltaStage = Inr (Some delay)"
    if "position < length permutation" "0 \<le> permutation ! position" "permutation ! position < N"
    for permutation position deltaStage
    unfolding delayFor_def
    using that nonneg total by (intro delayFor_loop_finds) simp_all
  have covered: "\<exists>m. GetPeerIDToTransmissionDelaysForConfig keccak Permutation
                        donPeerIDs transmissionID tc = Inr m \<and> dom m = set donPeerIDs"
    if len: "int (length donPeerIDs) = N" and sched: "Schedule tc = scheduleType"
      and perm: "is_permutation (length donPeerIDs)
                   (Permutation (length donPeerIDs) (transmissionScheduleSeed keccak transmissionID))"
    for keccak Permutation and donPeerIDs :: "'peer list" and transmissionID tc
  proof -
    let ?picked = "Permutation (length donPeerIDs) (transmissionScheduleSeed keccak transmissionID)"
    have "\<forall>j<length donPeerIDs. \<exists>v. delayFor (0 + j) schedule ?picked (DeltaStage tc) = Inr (Some v)"
      using is_permutation_range [OF perm] is_permutation_length [OF perm] len
      by (auto intro!: finds)
    from assignDelays_dom [OF this, of Map.empty] obtain m where
      "assignDelays 0 donPeerIDs schedule ?picked (DeltaStage tc) Map.empty = Inr m"
      "dom m = set donPeerIDs"
      by auto
    with create len sched show ?thesis
      by (auto simp: GetPeerIDToTransmissionDelaysForConfig_def)
  qed
  from create nonneg total finds covered show ?thesis by blast
qed

theorem schedule_covers_every_rank_witness:
  "(0::int) \<le> 3
   \<and> (\<exists>schedule. createTransmissionSchedule Schedule_OneAtATime 3 = Inr schedule
         \<and> sum_list schedule = 3
         \<and> (\<exists>delay. delayFor 0 schedule [2, 0, 1] 1000000000 = Inr (Some delay)))"
proof -
  have h1: "(0::int) \<le> 3" by simp
  have h2: "Schedule_OneAtATime = Schedule_AllAtOnce \<or> Schedule_OneAtATime = Schedule_OneAtATime"
    by simp
  from schedule_covers_every_rank [OF h1 h2, where ?'peer = string]
  obtain schedule where s: "createTransmissionSchedule Schedule_OneAtATime 3 = Inr schedule"
    and t: "sum_list schedule = 3"
    and f: "\<forall>permutation position deltaStage.
                 position < length permutation \<and> 0 \<le> permutation ! position
                   \<and> permutation ! position < 3
                 \<longrightarrow> (\<exists>delay. delayFor position schedule permutation deltaStage = Inr (Some delay))"
    by blast
  have "(0::nat) < length [2, 0, 1 :: int] \<and> 0 \<le> [2, 0, 1 :: int] ! 0 \<and> [2, 0, 1 :: int] ! 0 < 3"
    by simp
  with f have "\<exists>delay. delayFor 0 schedule [2, 0, 1] 1000000000 = Inr (Some delay)"
    by blast
  with h1 s t show ?thesis by blast
qed



section \<open>Properties of ExtractTransmissionConfig\<close>

lemma ExtractTransmissionConfig_parsed:
  assumes "UnwrapTo config = Inr tc"
    and "\<not> (tc_Schedule tc = [] \<and> tc_DeltaStage tc = [])"
  shows "ExtractTransmissionConfig UnwrapTo ParseDuration config =
           (case ParseDuration (tc_DeltaStage tc) of
              Inl err \<Rightarrow> Inl (ParseDeltaStageFailed (tc_DeltaStage tc) err)
            | Inr duration \<Rightarrow> Inr \<lparr>Schedule = tc_Schedule tc, DeltaStage = duration\<rparr>)"
  using assms by (auto simp: ExtractTransmissionConfig_def)

lemma time_ParseDuration_empty: "time_ParseDuration fraction [] = Inl ''time: invalid duration''"
  by (simp add: time_ParseDuration_def)

lemma durationTerms_Nil: "durationTerms fraction d [] = Inr d"
  by (simp add: durationTerms.simps)

lemma durationTerm_5s: "durationTerm fraction ''5s'' = Inr (5000000000, [])"
  by (simp add: durationTerm_def startsNumber_def isDigit_def unitMap_def)

lemma time_ParseDuration_minus_5s: "time_ParseDuration fraction ''-5s'' = Inr (- 5000000000)"
  by (simp add: time_ParseDuration_def durationTerms.simps [of _ _ "''5s''"] durationTerm_5s
      durationTerms_Nil)

lemma time_ParseDuration_5s: "time_ParseDuration fraction ''5s'' = Inr 5000000000"
  by (simp add: time_ParseDuration_def durationTerms.simps [of _ _ "''5s''"] durationTerm_5s
      durationTerms_Nil)

text \<open>
  Claim C9 says that a \<^verbatim>\<open>DeltaStage\<close> that parses as a negative duration makes
  \<^verbatim>\<open>ExtractTransmissionConfig\<close> fail. It does not: \<^verbatim>\<open>"-5s"\<close> parses as minus five
  seconds and is returned as the \<^verbatim>\<open>DeltaStage\<close> of the configuration.
\<close>

theorem negative_DeltaStage_rejected_counterexample:
  "time_ParseDuration exactFraction ''-5s'' = Inr (- 5000000000)
   \<and> sint (- 5000000000 :: Duration) < 0
   \<and> ExtractTransmissionConfig Inr (time_ParseDuration exactFraction)
        \<lparr>tc_DeltaStage = ''-5s'', tc_Schedule = ''oneAtATime''\<rparr>
      = Inr \<lparr>Schedule = ''oneAtATime'', DeltaStage = - 5000000000\<rparr>"
  by (simp add: ExtractTransmissionConfig_def time_ParseDuration_minus_5s)

text \<open>
  Claim C9, amended. Where the schedule or the \<^verbatim>\<open>DeltaStage\<close> is not empty,
  \<^verbatim>\<open>ExtractTransmissionConfig\<close> fails exactly when \<^verbatim>\<open>time.ParseDuration\<close> rejects the
  \<^verbatim>\<open>DeltaStage\<close>; every duration the parser returns, a negative one included, is
  accepted and returned as it is.
\<close>

theorem DeltaStage_accepted_as_parsed:
  assumes "UnwrapTo config = Inr tc"
    and "\<not> (tc_Schedule tc = [] \<and> tc_DeltaStage tc = [])"
  shows "(\<forall>err. ParseDuration (tc_DeltaStage tc) = Inl err \<longrightarrow>
            ExtractTransmissionConfig UnwrapTo ParseDuration config
              = Inl (ParseDeltaStageFailed (tc_DeltaStage tc) err))
       \<and> (\<forall>duration. ParseDuration (tc_DeltaStage tc) = Inr duration \<longrightarrow>
            ExtractTransmissionConfig UnwrapTo ParseDuration config
              = Inr \<lparr>Schedule = tc_Schedule tc, DeltaStage = duration\<rparr>)"
  using assms
    ExtractTransmissionConfig_parsed [where UnwrapTo = UnwrapTo and config = config and tc = tc
      and ParseDuration = ParseDuration]
  by simp

theorem DeltaStage_accepted_as_parsed_witness:
  "time_ParseDuration exactFraction ''-5s'' = Inr (- 5000000000)
   \<and> ExtractTransmissionConfig Inr (time_ParseDuration exactFraction)
        \<lparr>tc_DeltaStage = ''-5s'', tc_Schedule = ''oneAtATime''\<rparr>
      = Inr \<lparr>Schedule = ''oneAtATime'', DeltaStage = - 5000000000\<rparr>
   \<and> time_ParseDuration exactFraction ''5'' = Inl ''time: missing unit in duration''
   \<and> ExtractTransmissionConfig Inr (time_ParseDuration exactFraction)
        \<lparr>tc_DeltaStage = ''5'', tc_Schedule = ''oneAtATime''\<rparr>
      = Inl (ParseDeltaStageFailed ''5'' ''time: missing unit in duration'')"
proof -
  let ?neg = "\<lparr>tc_DeltaStage = ''-5s'', tc_Schedule = ''oneAtATime''\<rparr>"
  let ?bad = "\<lparr>tc_DeltaStage = ''5'', tc_Schedule = ''oneAtATime''\<rparr>"
  have u1: "Inr ?neg = (Inr ?neg :: string + tc_struct)" and u2: "Inr ?bad = (Inr ?bad :: string + tc_struct)"
    by simp_all
  have n1: "\<not> (tc_Schedule ?neg = [] \<and> tc_DeltaStage ?neg = [])"
    and n2: "\<not> (tc_Schedule ?bad = [] \<and> tc_DeltaStage ?bad = [])"
    by simp_all
  have p1: "time_ParseDuration exactFraction ''-5s'' = Inr (- 5000000000)"
    by (rule time_ParseDuration_minus_5s)
  have "durationTerm exactFraction ''5'' = Inl ''time: missing unit in duration''"
    by (simp add: durationTerm_def startsNumber_def isDigit_def unitMap_def)
  then have p2: "time_ParseDuration exactFraction ''5'' = Inl ''time: missing unit in duration''"
    by (simp add: time_ParseDuration_def durationTerms.simps [of _ _ "''5''"])
  from DeltaStage_accepted_as_parsed [of Inr ?neg ?neg "time_ParseDuration exactFraction", OF u1 n1] p1
  have "ExtractTransmissionConfig Inr (time_ParseDuration exactFraction) ?neg
      = Inr \<lparr>Schedule = ''oneAtATime'', DeltaStage = - 5000000000\<rparr>"
    by simp
  moreover
  from DeltaStage_accepted_as_parsed [of Inr ?bad ?bad "time_ParseDuration exactFraction", OF u2 n2] p2
  have "ExtractTransmissionConfig Inr (time_ParseDuration exactFraction) ?bad
      = Inl (ParseDeltaStageFailed ''5'' ''time: missing unit in duration'')"
    by simp
  ultimately show ?thesis using p1 p2 by blast
qed

text \<open>
  Claim C10. The default \<^verbatim>\<open>allAtOnce\<close> with a zero \<^verbatim>\<open>DeltaStage\<close> is returned when both
  unwrapped fields are empty. In every other case the result is that of parsing the
  \<^verbatim>\<open>DeltaStage\<close>; as \<^verbatim>\<open>time.ParseDuration\<close> rejects the empty string, a configuration
  with a schedule and an empty \<^verbatim>\<open>DeltaStage\<close> fails with the parse error.
\<close>

theorem default_only_when_both_empty:
  assumes "UnwrapTo config = Inr tc"
    and "ParseDuration [] = Inl err"
  shows "(tc_Schedule tc = [] \<and> tc_DeltaStage tc = [] \<longrightarrow>
            ExtractTransmissionConfig UnwrapTo ParseDuration config
              = Inr \<lparr>Schedule = Schedule_AllAtOnce, DeltaStage = 0\<rparr>)
       \<and> (tc_Schedule tc \<noteq> [] \<and> tc_DeltaStage tc = [] \<longrightarrow>
            ExtractTransmissionConfig UnwrapTo ParseDuration config
              = Inl (ParseDeltaStageFailed [] err))
       \<and> (\<not> (tc_Schedule tc = [] \<and> tc_DeltaStage tc = []) \<longrightarrow>
            ExtractTransmissionConfig UnwrapTo ParseDuration config
              = (case ParseDuration (tc_DeltaStage tc) of
                   Inl e \<Rightarrow> Inl (ParseDeltaStageFailed (tc_DeltaStage tc) e)
                 | Inr duration \<Rightarrow> Inr \<lparr>Schedule = tc_Schedule tc, DeltaStage = duration\<rparr>))"
  using assms by (auto simp: ExtractTransmissionConfig_def)

theorem default_only_when_both_empty_witness:
  "time_ParseDuration exactFraction [] = Inl ''time: invalid duration''
   \<and> ExtractTransmissionConfig Inr (time_ParseDuration exactFraction)
        \<lparr>tc_DeltaStage = [], tc_Schedule = ''oneAtATime''\<rparr>
      = Inl (ParseDeltaStageFailed [] ''time: invalid duration'')
   \<and> ExtractTransmissionConfig Inr (time_ParseDuration exactFraction)
        \<lparr>tc_DeltaStage = [], tc_Schedule = []\<rparr>
      = Inr \<lparr>Schedule = Schedule_AllAtOnce, DeltaStage = 0\<rparr>"
proof -
  let ?one = "\<lparr>tc_DeltaStage = [], tc_Schedule = ''oneAtATime''\<rparr>"
  let ?none = "\<lparr>tc_DeltaStage = [], tc_Schedule = []\<rparr>"
  have u1: "Inr ?one = (Inr ?one :: string + tc_struct)" and u2: "Inr ?none = (Inr ?none :: string + tc_struct)"
    by simp_all
  have p: "time_ParseDuration exactFraction [] = Inl ''time: invalid duration''"
    by (rule time_ParseDuration_empty)
  from default_only_when_both_empty [of Inr ?one ?one "time_ParseDuration exactFraction", OF u1 p]
  have "ExtractTransmissionConfig Inr (time_ParseDuration exactFraction) ?one
      = Inl (ParseDeltaStageFailed [] ''time: invalid duration'')"
    by simp
  moreover
  from default_only_when_both_empty [of Inr ?none ?none "time_ParseDuration exactFraction", OF u2 p]
  have "ExtractTransmissionConfig Inr (time_ParseDuration exactFraction) ?none
      = Inr \<lparr>Schedule = Schedule_AllAtOnce, DeltaStage = 0\<rparr>"
    by simp
  ultimately show ?thesis using p by blast
qed

section \<open>Properties of the transmit loop\<close>

lemma transmit_busy [simp]:
  "transmit (s\<lparr>transmitThreadBusyCount := n\<rparr>) reply t = transmit s reply t"
  by (cases "Report_Info_ReportFormat t") (simp_all add: transmit_def)


lemma reply_without_error_is_success:
  assumes pop: "popped env = Some t"
    and sent: "transmit s (clientReply env) t = ((Some req, Some res, None), [ClientTransmit req])"
    and ctx: "\<not> ctxCancelled env"
    and err: "Error res = []"
  shows "runQueueLoop_body DuplicateReport env (s, b) =
           Continue
             (if length (deleteQueue s) < deleteQueueCap s
              then s\<lparr>deleteQueue := deleteQueue s @ [Hash t],
                     transmitSuccessCount := transmitSuccessCount s + 1,
                     effects := effects s @
                       [ClientTransmit req, Log DebugLevel ''Transmit report success'']\<rparr>
              else s\<lparr>transmitSuccessCount := transmitSuccessCount s + 1,
                     effects := effects s @
                       [ClientTransmit req, Log DebugLevel ''Transmit report success'',
                        Log CriticalLevel ''Delete queue is full'']\<rparr>,
              Backoff_Reset b)"
  using assms
  by (simp add: runQueueLoop_body_def deferred_def emit_def requestDelete_def
      classify_count_def classify_log_def Let_def)



lemma transmit_jsonRecord:
  "transmit (newServer 10 rawPacker rawPacker) reply jsonRecord =
     ((Some \<lparr>Payload = [10, 20], req_ReportFormat = ReportFormatJSON\<rparr>, fst reply, snd reply),
      [ClientTransmit \<lparr>Payload = [10, 20], req_ReportFormat = ReportFormatJSON\<rparr>])"
  by (simp add: transmit_def newServer_def rawPacker_def jsonRecord_def Let_def)


lemma runQueueLoop_body_backoff:
  "\<exists>m. snd (state_of (runQueueLoop_body D env (s, queueBackoff\<lparr>attempt := n\<rparr>)))
         = queueBackoff\<lparr>attempt := m\<rparr>"
  by (auto simp: runQueueLoop_body_def Let_def Backoff_Duration_def Backoff_Reset_def
      split: option.splits)

lemma runQueueLoop_from_backoff:
  "\<exists>m. snd (state_of (runQueueLoop_from D envs (s, queueBackoff\<lparr>attempt := n\<rparr>)))
         = queueBackoff\<lparr>attempt := m\<rparr>"
proof (induction envs arbitrary: s n)
  case Nil
  show ?case by auto
next
  case (Cons env envs)
  obtain m where m: "snd (state_of (runQueueLoop_body D env (s, queueBackoff\<lparr>attempt := n\<rparr>)))
      = queueBackoff\<lparr>attempt := m\<rparr>"
    using runQueueLoop_body_backoff by blast
  show ?case
  proof (cases "runQueueLoop_body D env (s, queueBackoff\<lparr>attempt := n\<rparr>)")
    case (Continue sb)
    with m have "sb = (fst sb, queueBackoff\<lparr>attempt := m\<rparr>)" by (cases sb) simp
    with Continue Cons.IH [of "fst sb" m] show ?thesis by simp
  next
    case (Exit sb)
    with m show ?thesis by auto
  next
    case (Panic sb)
    with m show ?thesis by auto
  qed
qed

text \<open>
  Claim C6. When the client was called and answered with an error, and the context of
  the loop is not cancelled, the iteration increments the connection error counter and
  pushes the record back onto the queue. If the queue rejects the push the loop exits.
  Otherwise it waits for the backoff, drawn between 5ms and the smaller of 1s and 5ms
  doubled once per earlier wait since the last reset, and then goes on to the next pop,
  unless the stop signal ends the wait.
\<close>

theorem transport_error_requeues:
  assumes pop: "popped env = Some t"
    and sent: "transmit s (clientReply env) t = ((Some req, res, Some err), [ClientTransmit req])"
    and ctx: "\<not> ctxCancelled env"
  shows "runQueueLoop_body DuplicateReport env (s, queueBackoff\<lparr>attempt := n\<rparr>) =
           (if \<not> pushAccepted env
            then Exit (s\<lparr>transmitConnectionErrorCount := transmitConnectionErrorCount s + 1,
                         effects := effects s @
                           [ClientTransmit req, Log ErrorLevel ''Transmit report failed'',
                            QueuePush t,
                            Log ErrorLevel ''Failed to push report to transmit queue; queue is closed'']\<rparr>,
                       queueBackoff\<lparr>attempt := n\<rparr>)
            else (if stopFirst env then Exit else Continue)
                   (s\<lparr>transmitConnectionErrorCount := transmitConnectionErrorCount s + 1,
                      effects := effects s @
                        [ClientTransmit req, Log ErrorLevel ''Transmit report failed'',
                         QueuePush t,
                         BackoffWait (5 * millisecond) (min (1 * second) (5 * millisecond * 2 ^ n))]\<rparr>,
                    queueBackoff\<lparr>attempt := n + 1\<rparr>))"
  using assms
  by (simp add: runQueueLoop_body_def deferred_def emit_def Backoff_Duration_def
      Backoff_ceiling_def queueBackoff_def Let_def)

theorem transport_error_requeues_witness:
  "runQueueLoop_body 2 (answersOf (None, Some ''connection refused'') jsonRecord)
     (newServer 10 rawPacker rawPacker, queueBackoff\<lparr>attempt := 3\<rparr>)
   = Continue ((newServer 10 rawPacker rawPacker)
        \<lparr>transmitConnectionErrorCount := 1,
          effects := [ClientTransmit \<lparr>Payload = [10, 20], req_ReportFormat = ReportFormatJSON\<rparr>,
                      Log ErrorLevel ''Transmit report failed'',
                      QueuePush jsonRecord,
                      BackoffWait 5000000 40000000]\<rparr>,
      queueBackoff\<lparr>attempt := 4\<rparr>)"
proof -
  let ?env = "answersOf (None, Some ''connection refused'') jsonRecord"
  let ?s = "newServer 10 rawPacker rawPacker"
  have pop: "popped ?env = Some jsonRecord" by (simp add: answersOf_def)
  have sent: "transmit ?s (clientReply ?env) jsonRecord =
      ((Some \<lparr>Payload = [10, 20], req_ReportFormat = ReportFormatJSON\<rparr>, None, Some ''connection refused''),
       [ClientTransmit \<lparr>Payload = [10, 20], req_ReportFormat = ReportFormatJSON\<rparr>])"
    by (simp add: transmit_jsonRecord answersOf_def)
  have ctx: "\<not> ctxCancelled ?env" by (simp add: answersOf_def)
  have "pushAccepted ?env" "\<not> stopFirst ?env" by (simp_all add: answersOf_def)
  with transport_error_requeues [OF pop sent ctx, where DuplicateReport = 2 and n = 3] show ?thesis
    by (simp add: newServer_def millisecond_def second_def)
qed

text \<open>
  Claim C7 says that a reply carrying the code \<^verbatim>\<open>DuplicateReport\<close> increments the
  success and the duplicate counter. The loop looks at the code only when the
  \<^verbatim>\<open>Error\<close> string of the reply is not empty: a reply with that code and an empty
  \<^verbatim>\<open>Error\<close> counts as a plain success and leaves the duplicate counter alone.
\<close>

theorem duplicate_code_counterexample:
  "Code \<lparr>Code = 2, Error = []\<rparr> = 2
   \<and> runQueueLoop_body 2 (answersOf (Some \<lparr>Code = 2, Error = []\<rparr>, None) jsonRecord)
        (newServer 10 rawPacker rawPacker, queueBackoff)
      = Continue ((newServer 10 rawPacker rawPacker)
          \<lparr>deleteQueue := [[42]],
            transmitSuccessCount := 1,
            transmitDuplicateCount := 0,
            effects := [ClientTransmit \<lparr>Payload = [10, 20], req_ReportFormat = ReportFormatJSON\<rparr>,
                        Log DebugLevel ''Transmit report success'']\<rparr>,
          queueBackoff)"
proof -
  let ?res = "\<lparr>Code = 2, Error = []\<rparr>"
  let ?env = "answersOf (Some ?res, None) jsonRecord"
  let ?s = "newServer 10 rawPacker rawPacker"
  have pop: "popped ?env = Some jsonRecord" by (simp add: answersOf_def)
  have sent: "transmit ?s (clientReply ?env) jsonRecord =
      ((Some \<lparr>Payload = [10, 20], req_ReportFormat = ReportFormatJSON\<rparr>, Some ?res, None),
       [ClientTransmit \<lparr>Payload = [10, 20], req_ReportFormat = ReportFormatJSON\<rparr>])"
    by (simp add: transmit_jsonRecord answersOf_def)
  have ctx: "\<not> ctxCancelled ?env" by (simp add: answersOf_def)
  have err: "Error ?res = []" by simp
  from reply_without_error_is_success [OF pop sent ctx err, where DuplicateReport = 2 and b = queueBackoff]
  show ?thesis
    by (simp add: newServer_def jsonRecord_def Backoff_Reset_def queueBackoff_def)
qed

text \<open>
  Claim C7, amended. When the send completes with a reply whose \<^verbatim>\<open>Error\<close> string is
  not empty and whose code is \<^verbatim>\<open>DuplicateReport\<close>, the success counter and the duplicate
  counter each go up by one, nothing is pushed onto the transmit queue, the backoff is
  reset, and the hash of the record is appended to the delete queue if there is room;
  if the delete queue is full the request is dropped with a critical log line and the
  loop goes on.
\<close>

theorem duplicate_reply_counted_once:
  assumes pop: "popped env = Some t"
    and sent: "transmit s (clientReply env) t = ((Some req, Some res, None), [ClientTransmit req])"
    and ctx: "\<not> ctxCancelled env"
    and err: "Error res \<noteq> []"
    and code: "Code res = DuplicateReport"
  shows "runQueueLoop_body DuplicateReport env (s, b) =
           Continue
             (if length (deleteQueue s) < deleteQueueCap s
              then s\<lparr>deleteQueue := deleteQueue s @ [Hash t],
                     transmitSuccessCount := transmitSuccessCount s + 1,
                     transmitDuplicateCount := transmitDuplicateCount s + 1,
                     effects := effects s @
                       [ClientTransmit req,
                        Log DebugLevel ''Transmit report success; duplicate report'']\<rparr>
              else s\<lparr>transmitSuccessCount := transmitSuccessCount s + 1,
                     transmitDuplicateCount := transmitDuplicateCount s + 1,
                     effects := effects s @
                       [ClientTransmit req,
                        Log DebugLevel ''Transmit report success; duplicate report'',
                        Log CriticalLevel ''Delete queue is full'']\<rparr>,
              Backoff_Reset b)"
  using assms
  by (simp add: runQueueLoop_body_def deferred_def emit_def requestDelete_def
      classify_count_def classify_log_def Let_def)

theorem duplicate_reply_counted_once_witness:
  "runQueueLoop_body 2 (answersOf (Some \<lparr>Code = 2, Error = ''duplicate''\<rparr>, None) jsonRecord)
        (newServer 10 rawPacker rawPacker, queueBackoff\<lparr>attempt := 3\<rparr>)
      = Continue ((newServer 10 rawPacker rawPacker)
          \<lparr>deleteQueue := [[42]],
            transmitSuccessCount := 1,
            transmitDuplicateCount := 1,
            effects := [ClientTransmit \<lparr>Payload = [10, 20], req_ReportFormat = ReportFormatJSON\<rparr>,
                        Log DebugLevel ''Transmit report success; duplicate report'']\<rparr>,
          queueBackoff)"
proof -
  let ?res = "\<lparr>Code = 2, Error = ''duplicate''\<rparr>"
  let ?env = "answersOf (Some ?res, None) jsonRecord"
  let ?s = "newServer 10 rawPacker rawPacker"
  have pop: "popped ?env = Some jsonRecord" by (simp add: answersOf_def)
  have sent: "transmit ?s (clientReply ?env) jsonRecord =
      ((Some \<lparr>Payload = [10, 20], req_ReportFormat = ReportFormatJSON\<rparr>, Some ?res, None),
       [ClientTransmit \<lparr>Payload = [10, 20], req_ReportFormat = ReportFormatJSON\<rparr>])"
    by (simp add: transmit_jsonRecord answersOf_def)
  have ctx: "\<not> ctxCancelled ?env" by (simp add: answersOf_def)
  have err: "Error ?res \<noteq> []" and code: "Code ?res = 2" by simp_all
  from duplicate_reply_counted_once [OF pop sent ctx err code, where b = "queueBackoff\<lparr>attempt := 3\<rparr>"]
  show ?thesis
    by (simp add: newServer_def jsonRecord_def Backoff_Reset_def queueBackoff_def)
qed




section \<open>Properties of the delete loop\<close>

lemma deleteWithRetry_fails_then_ok:
  "deleteWithRetry hash (map (\<lambda>e. DeleteFails e False) errs @ [DeleteOk]) (s, b) =
     Some (Continue
       (s\<lparr>deleteThreadBusyCount := deleteThreadBusyCount s + int (length errs) + 1,
          transmitQueueDeleteErrorCount := transmitQueueDeleteErrorCount s + length errs,
          effects := effects s @
            concat (map (\<lambda>i. [OrmDelete [hash],
                               Log ErrorLevel ''Failed to delete transmission record'',
                               BackoffWait (if bJitter b then bMin b
                                            else min (bMax b) (bMin b * bFactor b ^ (attempt b + i)))
                                 (min (bMax b) (bMin b * bFactor b ^ (attempt b + i)))])
                      [0..<length errs])
            @ [OrmDelete [hash]]\<rparr>,
        b\<lparr>attempt := attempt b + length errs\<rparr>))"
proof (induction errs arbitrary: s b)
  case Nil
  show ?case by (simp add: emit_def)
next
  case (Cons e errs)
  let ?w = "BackoffWait (if bJitter b then bMin b
                         else min (bMax b) (bMin b * bFactor b ^ attempt b))
              (min (bMax b) (bMin b * bFactor b ^ attempt b))"
  let ?s2 = "s\<lparr>deleteThreadBusyCount := deleteThreadBusyCount s + 1,
               transmitQueueDeleteErrorCount := transmitQueueDeleteErrorCount s + 1,
               effects := effects s @ [OrmDelete [hash],
                            Log ErrorLevel ''Failed to delete transmission record'', ?w]\<rparr>"
  let ?b' = "b\<lparr>attempt := attempt b + 1\<rparr>"
  have step: "deleteWithRetry hash (map (\<lambda>e. DeleteFails e False) (e # errs) @ [DeleteOk]) (s, b)
      = deleteWithRetry hash (map (\<lambda>e. DeleteFails e False) errs @ [DeleteOk]) (?s2, ?b')"
    by (simp add: emit_def Backoff_Duration_def Backoff_ceiling_def Let_def)
  have shift: "map f [0..<Suc n] = f 0 # map (\<lambda>i. f (Suc i)) [0..<n]" for f :: "nat \<Rightarrow> event list" and n
    by (simp add: upt_conv_Cons map_Suc_upt [symmetric] del: upt_Suc)
  show ?case
    unfolding step Cons.IH
    by (simp add: shift del: upt_Suc)
qed

lemma deleteWithRetry_backoff:
  "deleteWithRetry hash answers (s, b) = Some out \<Longrightarrow> \<exists>m. snd (state_of out) = b\<lparr>attempt := m\<rparr>"
proof (induction answers arbitrary: s b)
  case Nil
  then show ?case by simp
next
  case (Cons a answers)
  show ?case
  proof (cases a)
    case DeleteOk
    with Cons.prems have "snd (state_of out) = b" by (auto simp: Let_def)
    then have "snd (state_of out) = b\<lparr>attempt := attempt b\<rparr>" by simp
    then show ?thesis by blast
  next
    case (DeleteFails err stop)
    show ?thesis
    proof (cases stop)
      case True
      with DeleteFails Cons.prems have "snd (state_of out) = b\<lparr>attempt := attempt b + 1\<rparr>"
        by (auto simp: Let_def Backoff_Duration_def)
      then show ?thesis by blast
    next
      case False
      with DeleteFails Cons.prems obtain s2 where
        "deleteWithRetry hash answers (s2, b\<lparr>attempt := attempt b + 1\<rparr>) = Some out"
        by (auto simp: Let_def Backoff_Duration_def)
      from Cons.IH [OF this] show ?thesis by auto
    qed
  qed
qed

lemma runDeleteQueueLoop_body_backoff:
  assumes "runDeleteQueueLoop_body sel (s, deleteBackoff) = Some (Continue sb)"
  shows "snd sb = deleteBackoff"
proof (cases sel)
  case StopSignal
  with assms show ?thesis by (simp add: runDeleteQueueLoop_body_def)
next
  case (Receive answers)
  show ?thesis
  proof (cases "deleteQueue s")
    case Nil
    with Receive assms show ?thesis by (simp add: runDeleteQueueLoop_body_def)
  next
    case (Cons hash queued)
    with Receive assms obtain sb' where
      del: "deleteWithRetry hash answers (s\<lparr>deleteQueue := queued\<rparr>, deleteBackoff) = Some (Continue sb')"
      and sb: "snd sb = Backoff_Reset (snd sb')"
      by (auto simp: runDeleteQueueLoop_body_def split: option.splits outcome.splits)
    from deleteWithRetry_backoff [OF del] obtain m where "snd sb' = deleteBackoff\<lparr>attempt := m\<rparr>"
      by auto
    with sb show ?thesis by (simp add: Backoff_Reset_def deleteBackoff_def)
  qed
qed

text \<open>
  Claim C8. For a hash received from the delete queue whose \<^verbatim>\<open>Delete\<close> fails \<open>k\<close> times
  and then succeeds, with no stop signal during the waits, the loop calls \<^verbatim>\<open>Delete\<close>
  \<open>k + 1\<close> times, waits after the \<open>i\<close>-th failure for a backoff drawn between 1s and the
  smaller of 120s and 1s doubled \<open>i\<close> times, increments the delete error counter exactly
  \<open>k\<close> times, and goes on with the backoff reset to its floor.
\<close>

theorem delete_retried_until_success:
  assumes recv: "deleteQueue s = hash # queued"
  shows "\<exists>s'. runDeleteQueueLoop_body (Receive (map (\<lambda>e. DeleteFails e False) errs @ [DeleteOk]))
                 (s, deleteBackoff) = Some (Continue (s', deleteBackoff))
            \<and> transmitQueueDeleteErrorCount s' = transmitQueueDeleteErrorCount s + length errs
            \<and> deleteQueue s' = queued
            \<and> effects s' = effects s @
                 concat (map (\<lambda>i. [OrmDelete [hash],
                                    Log ErrorLevel ''Failed to delete transmission record'',
                                    BackoffWait (1 * second) (min (120 * second) (1 * second * 2 ^ i))])
                           [0..<length errs])
                 @ [OrmDelete [hash]]"
  using assms
  by (simp add: runDeleteQueueLoop_body_def deleteWithRetry_fails_then_ok Backoff_Reset_def
      deleteBackoff_def)

theorem delete_retried_until_success_witness:
  "deleteQueue ((newServer 10 rawPacker rawPacker)\<lparr>deleteQueue := [[42], [43]]\<rparr>) = [42] # [[43]]
   \<and> (\<exists>s'. runDeleteQueueLoop_body
               (Receive [DeleteFails ''db down'' False, DeleteFails ''db down'' False, DeleteOk])
               ((newServer 10 rawPacker rawPacker)\<lparr>deleteQueue := [[42], [43]]\<rparr>, deleteBackoff)
             = Some (Continue (s', deleteBackoff))
           \<and> transmitQueueDeleteErrorCount s' = 2
           \<and> deleteQueue s' = [[43]]
           \<and> effects s' =
               [OrmDelete [[42]], Log ErrorLevel ''Failed to delete transmission record'',
                BackoffWait 1000000000 1000000000,
                OrmDelete [[42]], Log ErrorLevel ''Failed to delete transmission record'',
                BackoffWait 1000000000 2000000000,
                OrmDelete [[42]]])"
proof -
  let ?s = "(newServer 10 rawPacker rawPacker)\<lparr>deleteQueue := [[42], [43]]\<rparr>"
  have recv: "deleteQueue ?s = [42] # [[43]]" by simp
  have up: "[0..<length [''db down'', ''db down'']] = [0, 1]" by (simp add: upt_rec)
  from delete_retried_until_success [OF recv, where errs = "[''db down'', ''db down'']"]
  obtain s' where "runDeleteQueueLoop_body
               (Receive (map (\<lambda>e. DeleteFails e False) [''db down'', ''db down''] @ [DeleteOk]))
               (?s, deleteBackoff) = Some (Continue (s', deleteBackoff))"
    and "transmitQueueDeleteErrorCount s' = transmitQueueDeleteErrorCount ?s + length [''db down'', ''db down'']"
    and "deleteQueue s' = [[43]]"
    and "effects s' = effects ?s @
                 concat (map (\<lambda>i. [OrmDelete [[42]],
                                    Log ErrorLevel ''Failed to delete transmission record'',
                                    BackoffWait (1 * second) (min (120 * second) (1 * second * 2 ^ i))])
                           [0..<length [''db down'', ''db down'']])
                 @ [OrmDelete [[42]]]"
    by blast
  then have "runDeleteQueueLoop_body
               (Receive [DeleteFails ''db down'' False, DeleteFails ''db down'' False, DeleteOk])
               (?s, deleteBackoff) = Some (Continue (s', deleteBackoff))"
    and "transmitQueueDeleteErrorCount s' = 2"
    and "deleteQueue s' = [[43]]"
    and "effects s' =
               [OrmDelete [[42]], Log ErrorLevel ''Failed to delete transmission record'',
                BackoffWait 1000000000 1000000000,
                OrmDelete [[42]], Log ErrorLevel ''Failed to delete transmission record'',
                BackoffWait 1000000000 2000000000,
                OrmDelete [[42]]]"
    unfolding up by (simp_all add: newServer_def second_def)
  with recv show ?thesis by blast
qed

end
